theory Spec2Isabelle
  imports Main "HOL-Library.Signed_Division"
begin

section \<open>Library functions the program calls\<close>

subsection \<open>Package strings\<close>

text \<open>
  Go strings are byte sequences; \<^typ>\<open>string\<close> is a list of 8-bit characters.
  \<open>strings.HasPrefix(s, prefix)\<close> is
  \<open>len(s) >= len(prefix) && s[:len(prefix)] == prefix\<close>.
\<close>

definition HasPrefix :: "string \<Rightarrow> string \<Rightarrow> bool" where
  "HasPrefix s pfx = (length pfx \<le> length s \<and> take (length pfx) s = pfx)"

text \<open>\<open>strings.Contains(s, substr)\<close>: \<open>substr\<close> occurs at some offset of \<open>s\<close>.\<close>

fun Contains :: "string \<Rightarrow> string \<Rightarrow> bool" where
  "Contains [] substr = (substr = [])"
| "Contains (c # cs) substr = (HasPrefix (c # cs) substr \<or> Contains cs substr)"

subsection \<open>Package strconv\<close>

text \<open>
  \<open>int64\<close> values are modelled as integers; the one place of the program where a
  64-bit operation can overflow (\<open>totalBytes += sz\<close>) wraps explicitly, see \<open>wrap64\<close>.
\<close>

type_synonym int64 = int

definition wrap64 :: "int \<Rightarrow> int64" where
  "wrap64 x = (x + 2 ^ 63) mod 2 ^ 64 - 2 ^ 63"

definition digitChar :: "nat \<Rightarrow> char" where
  "digitChar d = ''0123456789'' ! d"

fun formatNat :: "nat \<Rightarrow> string" where
  "formatNat n = (if n < 10 then [digitChar n] else formatNat (n div 10) @ [digitChar (n mod 10)])"

declare formatNat.simps [simp del]

text \<open>\<open>strconv.FormatInt(v, 10)\<close>: a minus sign for a negative value, then the decimal digits.\<close>

definition FormatInt :: "int64 \<Rightarrow> string" where
  "FormatInt v = (if v < 0 then CHR ''-'' # formatNat (nat (- v)) else formatNat (nat v))"

subsection \<open>Package regexp\<close>

text \<open>
  The syntax tree of a compiled pattern, with the operators the program's patterns use
  (the names are those of \<open>regexp/syntax\<close>). Under the flags of \<open>regexp.MustCompile\<close>,
  \<open>^\<close> is \<open>BeginText\<close>, \<open>$\<close> is \<open>EndText\<close> (the end of the text only, not before a
  final newline) and \<open>.\<close> is \<open>AnyCharNotNL\<close>. Literals are ASCII.
\<close>

datatype regex =
    Literal string
  | AnyCharNotNL
  | BeginText
  | EndText
  | Concat regex regex
  | Alternate regex regex
  | Star regex

text \<open>
  The matcher reads its input one UTF-8 encoded rune at a time
  (\<open>utf8.DecodeRuneInString\<close>): \<open>runeWidth s\<close> is the number of bytes of the first
  rune of the non-empty \<open>s\<close>; a byte that does not start a well-formed encoding is a
  rune of width 1.
\<close>

definition inRange :: "nat \<Rightarrow> nat \<Rightarrow> char \<Rightarrow> bool" where
  "inRange lo hi c = (lo \<le> of_char c \<and> of_char c \<le> hi)"

definition contByte :: "char \<Rightarrow> bool" where
  "contByte c = inRange 128 191 c"

definition runeWidth :: "string \<Rightarrow> nat" where
  "runeWidth s =
     (case s of
        [] \<Rightarrow> 0
      | c0 # t1 \<Rightarrow>
          (let b0 = (of_char c0 :: nat) in
           if b0 < 128 then 1
           else if 194 \<le> b0 \<and> b0 \<le> 223 then
             (case t1 of c1 # _ \<Rightarrow> if contByte c1 then 2 else 1 | _ \<Rightarrow> 1)
           else if 224 \<le> b0 \<and> b0 \<le> 239 then
             (case t1 of
                c1 # c2 # _ \<Rightarrow>
                  if inRange (if b0 = 224 then 160 else 128) (if b0 = 237 then 159 else 191) c1
                     \<and> contByte c2
                  then 3 else 1
              | _ \<Rightarrow> 1)
           else if 240 \<le> b0 \<and> b0 \<le> 244 then
             (case t1 of
                c1 # c2 # c3 # _ \<Rightarrow>
                  if inRange (if b0 = 240 then 144 else 128) (if b0 = 244 then 143 else 191) c1
                     \<and> contByte c2 \<and> contByte c3
                  then 4 else 1
              | _ \<Rightarrow> 1)
           else 1))"

text \<open>
  A cursor is a position in the text: whether it is the beginning of the text, and the
  input that remains. \<open>step r c\<close> lists the cursors at which a match of \<open>r\<close> begun at
  \<open>c\<close> can end. \<open>star r n c\<close> does so for at most \<open>n\<close> iterations of \<open>r\<close>; an
  iteration that consumes nothing leaves the cursor where it is, so as many iterations
  as there are bytes left reach every end (lemmas \<open>star_fuel\<close> and \<open>step_Star_iff\<close>
  below).
\<close>

type_synonym cursor = "bool \<times> string"

function step :: "regex \<Rightarrow> cursor \<Rightarrow> cursor list"
  and star :: "regex \<Rightarrow> nat \<Rightarrow> cursor \<Rightarrow> cursor list" where
  "step (Literal w) c =
     (if HasPrefix (snd c) w then [(fst c \<and> w = [], drop (length w) (snd c))] else [])"
| "step AnyCharNotNL c =
     (case snd c of
        [] \<Rightarrow> []
      | x # xs \<Rightarrow> if x = CHR 0x0A then [] else [(False, drop (runeWidth (x # xs)) (x # xs))])"
| "step BeginText c = (if fst c then [c] else [])"
| "step EndText c = (if snd c = [] then [c] else [])"
| "step (Concat r1 r2) c = concat (map (step r2) (step r1 c))"
| "step (Alternate r1 r2) c = step r1 c @ step r2 c"
| "step (Star r) c = star r (length (snd c)) c"
| "star r 0 c = [c]"
| "star r (Suc n) c = c # concat (map (star r n) (step r c))"
  by pat_completeness auto
termination
  by (relation "measures
        [\<lambda>x. case x of Inl (r, c) \<Rightarrow> 2 * size r | Inr (r, n, c) \<Rightarrow> 2 * size r + 1,
         \<lambda>x. case x of Inl (r, c) \<Rightarrow> 0 | Inr (r, n, c) \<Rightarrow> n]") auto

text \<open>
  \<open>(*Regexp).MatchString(s)\<close> reports whether \<open>s\<close> contains a match: the search tries
  every rune boundary of \<open>s\<close> as the start, the end of \<open>s\<close> included.
\<close>

function search :: "regex \<Rightarrow> bool \<Rightarrow> string \<Rightarrow> bool" where
  "search r b s =
     (if step r (b, s) \<noteq> [] then True
      else if s = [] then False
      else search r False (drop (runeWidth s) s))"
  by pat_completeness auto
termination
  by (relation "measure (\<lambda>(r, b, s). length s)")
    (auto simp: runeWidth_def Let_def split: list.splits)

declare search.simps [simp del]

definition MatchString :: "regex \<Rightarrow> string \<Rightarrow> bool" where
  "MatchString patt s = search patt True s"


text \<open>
  The pattern of \<open>duRE\<close>, \<open>^([0-9]+)\s+\<close>, and its \<open>FindStringSubmatch\<close>: the
  text must begin with decimal digits followed by white space (\<open>\s\<close> is one of tab,
  newline, form feed, carriage return and space). Both repetitions are greedy, and no
  shorter run of digits is followed by white space, so the only match takes every
  leading digit. The result holds the whole match and the group; \<open>None\<close> is \<open>nil\<close>.
\<close>

definition isDigit :: "char \<Rightarrow> bool" where
  "isDigit c = inRange 48 57 c"

definition isSpace :: "char \<Rightarrow> bool" where
  "isSpace c = (c \<in> set [CHR 0x09, CHR 0x0A, CHR 0x0C, CHR 0x0D, CHR '' ''])"

definition duRE_FindStringSubmatch :: "string \<Rightarrow> string list option" where
  "duRE_FindStringSubmatch s =
     (let ds = takeWhile isDigit s; rest = dropWhile isDigit s; ws = takeWhile isSpace rest
      in if ds = [] \<or> ws = [] then None else Some [ds @ ws, ds])"

text \<open>
  \<open>strconv.ParseInt(s, 10, 64)\<close>: an optional sign and at least one decimal digit,
  nothing else; a value outside of 64 bits is an error. \<open>None\<close> is the error.
\<close>

definition parseNat :: "string \<Rightarrow> nat" where
  "parseNat ds = foldl (\<lambda>acc c. 10 * acc + (of_char c - 48)) 0 ds"

definition ParseInt :: "string \<Rightarrow> int64 option" where
  "ParseInt s =
     (let neg = (s \<noteq> [] \<and> hd s = CHR ''-'');
          ds = (if s \<noteq> [] \<and> (hd s = CHR ''-'' \<or> hd s = CHR ''+'') then tl s else s)
      in if ds = [] \<or> \<not> list_all isDigit ds then None
         else let v = (if neg then - int (parseNat ds) else int (parseNat ds))
              in if v < - (2 ^ 63) \<or> 2 ^ 63 - 1 < v then None else Some v)"

section \<open>The program\<close>

subsection \<open>The operating system\<close>

text \<open>
  What the program asks of its environment, over a file system state \<open>'w\<close> that only
  \<open>os.RemoveAll\<close> changes: \<open>ioutil.ReadDir\<close> (an error, or the entries with their
  \<open>Name()\<close> and \<open>IsDir()\<close>), running a command (the error of \<open>cmd.Run()\<close>, if any,
  and what the command wrote), \<open>os.RemoveAll\<close> and \<open>filepath.Join\<close>. An error is its
  description, the string \<open>err.Error()\<close>.
\<close>

record FileInfo =
  Name :: string
  IsDir :: bool

record cmdResult =
  runErr :: "string option"
  stdout :: string
  stderr :: string

record 'w os =
  ioutil_ReadDir :: "'w \<Rightarrow> string \<Rightarrow> string + FileInfo list"
  cmd_Run :: "'w \<Rightarrow> string list \<Rightarrow> cmdResult"
  os_RemoveAll :: "'w \<Rightarrow> string \<Rightarrow> 'w \<times> string option"
  filepath_Join :: "string \<Rightarrow> string \<Rightarrow> string"

text \<open>The calls the program makes and the lines it prints, in the order it makes them.\<close>

datatype event =
    EvReadDir string
  | EvExec "string list"
  | EvRemoveAll string
  | EvPrintf string

text \<open>The two flags, \<open>-tmp-root\<close> and \<open>-dry-run\<close>.\<close>

record flags =
  tmpRoot :: string
  dryRun :: bool

definition newline :: string where
  "newline = [CHR 0x0A]"

subsection \<open>humanizeBytes\<close>

definition unitF :: "int64 \<Rightarrow> string \<Rightarrow> string" where
  "unitF v s = FormatInt v @ [] @ s"

definition humanizeBytes :: "int64 \<Rightarrow> string" where
  "humanizeBytes v =
     (if v < 1024 then unitF v ''B''
      else let v1 = v sdiv 1024 in
        if v1 < 1024 then unitF v1 ''K''
        else let v2 = v1 sdiv 1024 in
          if v2 < 1024 then unitF v2 ''M''
          else let v3 = v2 sdiv 1024 in
            if v3 < 1024 then unitF v3 ''G''
            else let v4 = v3 sdiv 1024 in unitF v4 ''T'')"

subsection \<open>scanForToplevelStuff\<close>

definition eligiblePrefixes :: "string list" where
  "eligiblePrefixes =
     [''007-agent'', ''agent_smith'', ''go-build'', ''jones-agent'', ''Test'', ''test-agent'',
      ''test-consul-agent'', ''consul'', ''Agent1-agent'', ''Agent2-agent'', ''betty-agent'',
      ''bob-agent'', ''bonnie-agent'', ''dc1-agent'', ''dc2-agent'', ''gopls-'', ''dc1-consul'',
      ''dc2-consul'', ''test-container'']"

definition eligibleFilePrefixes :: "string list" where
  "eligibleFilePrefixes = [''snapshot'', ''config-err-'']"

text \<open>
  The five patterns: \<open>^go\..*\.(sum|mod)$\<close>, \<open>^gopls\..*-heap.pb.gz$\<close>,
  \<open>^gopls\..*-goroutines.txt$\<close>, \<open>^gopls-.*.log$\<close> and \<open>^gopls\..*\.zip$\<close>. A dot
  that is not escaped is \<open>AnyCharNotNL\<close>.
\<close>

definition eligibleFilePatterns :: "regex list" where
  "eligibleFilePatterns =
     [Concat BeginText (Concat (Literal ''go.'') (Concat (Star AnyCharNotNL)
        (Concat (Literal ''.'') (Concat (Alternate (Literal ''sum'') (Literal ''mod'')) EndText)))),
      Concat BeginText (Concat (Literal ''gopls.'') (Concat (Star AnyCharNotNL)
        (Concat (Literal ''-heap'') (Concat AnyCharNotNL (Concat (Literal ''pb'')
        (Concat AnyCharNotNL (Concat (Literal ''gz'') EndText))))))),
      Concat BeginText (Concat (Literal ''gopls.'') (Concat (Star AnyCharNotNL)
        (Concat (Literal ''-goroutines'') (Concat AnyCharNotNL (Concat (Literal ''txt'') EndText))))),
      Concat BeginText (Concat (Literal ''gopls-'') (Concat (Star AnyCharNotNL)
        (Concat AnyCharNotNL (Concat (Literal ''log'') EndText)))),
      Concat BeginText (Concat (Literal ''gopls.'') (Concat (Star AnyCharNotNL)
        (Concat (Literal ''.zip'') EndText)))]"

text \<open>
  The loops \<open>for _, pfx := range ... { if strings.HasPrefix(name, pfx) { return true } }\<close>
  and \<open>for _, patt := range ... { if patt.MatchString(name) { return true } }\<close>:
  \<open>True\<close> when the loop returns, \<open>False\<close> when it falls through.
\<close>

fun prefixLoop :: "string \<Rightarrow> string list \<Rightarrow> bool" where
  "prefixLoop name [] = False"
| "prefixLoop name (pfx # rest) = (if HasPrefix name pfx then True else prefixLoop name rest)"

fun patternLoop :: "string \<Rightarrow> regex list \<Rightarrow> bool" where
  "patternLoop name [] = False"
| "patternLoop name (patt # rest) = (if MatchString patt name then True else patternLoop name rest)"

definition shouldDelete :: "bool \<Rightarrow> string \<Rightarrow> bool" where
  "shouldDelete dir name =
     (if dir then
        (if name = ''consul-test'' then True
         else if prefixLoop name eligiblePrefixes then True
         else False)
      else
        (if prefixLoop name eligibleFilePrefixes then True
         else if patternLoop name eligibleFilePatterns then True
         else False))"

text \<open>The loop over the listing, \<open>roots\<close> being the slice it appends to.\<close>

fun scanLoop :: "'w os \<Rightarrow> string \<Rightarrow> FileInfo list \<Rightarrow> string list \<Rightarrow> string list" where
  "scanLoop sys root [] roots = roots"
| "scanLoop sys root (st # files) roots =
     scanLoop sys root files
       (if shouldDelete (IsDir st) (Name st) then roots @ [filepath_Join sys root (Name st)]
        else roots)"

definition scanForToplevelStuff ::
  "'w os \<Rightarrow> flags \<Rightarrow> 'w \<Rightarrow> event list \<times> (string + string list)" where
  "scanForToplevelStuff sys fl w =
     (case ioutil_ReadDir sys w (tmpRoot fl) of
        Inl err \<Rightarrow> ([EvReadDir (tmpRoot fl)], Inl err)
      | Inr files \<Rightarrow> ([EvReadDir (tmpRoot fl)], Inr (scanLoop sys (tmpRoot fl) files [])))"

subsection \<open>estimateTreeSize\<close>

text \<open>The command line of \<open>exec.Command("du", "-s", "--block-size=1", d)\<close>.\<close>

definition duCommand :: "string \<Rightarrow> string list" where
  "duCommand d = [''du'', ''-s'', ''--block-size=1'', d]"

text \<open>The result is the Go pair: the size and the error (\<open>None\<close> is \<open>nil\<close>).\<close>

definition estimateTreeSize :: "'w os \<Rightarrow> 'w \<Rightarrow> string \<Rightarrow> event list \<times> int64 \<times> string option" where
  "estimateTreeSize sys w d =
     (if d = [] then ([], 0, Some ''missing directory name'')
      else
        let argv = duCommand d;
            res = cmd_Run sys w argv
        in case runErr res of
             Some err \<Rightarrow> ([EvExec argv], 0, Some (err @ '': '' @ stderr res))
           | None \<Rightarrow>
               (let s = stdout res in
                case duRE_FindStringSubmatch s of
                  None \<Rightarrow> ([EvExec argv], 0, Some (''unrecognized du output: '' @ s))
                | Some m \<Rightarrow>
                    if length m \<noteq> 2 then ([EvExec argv], 0, Some (''unrecognized du output: '' @ s))
                    else (case ParseInt (m ! 1) of
                            None \<Rightarrow> ([EvExec argv], 0, Some (''unrecognized du output: '' @ s))
                          | Some v \<Rightarrow> ([EvExec argv], v, None))))"

subsection \<open>run\<close>

text \<open>
  The first loop of \<open>run\<close>. The result is the error the loop returns with, or
  \<open>totalBytes\<close> when the loop ends.
\<close>

fun estimateLoop :: "'w os \<Rightarrow> 'w \<Rightarrow> string list \<Rightarrow> int64 \<Rightarrow> event list \<times> (string + int64)" where
  "estimateLoop sys w [] totalBytes = ([], Inr totalBytes)"
| "estimateLoop sys w (dir # dirs) totalBytes =
     (case estimateTreeSize sys w dir of
        (evs, sz, None) \<Rightarrow>
          (case estimateLoop sys w dirs (wrap64 (totalBytes + sz)) of
             (evs', r) \<Rightarrow> (evs @ evs', r))
      | (evs, sz, Some err) \<Rightarrow>
          if Contains err ''Permission denied'' then
            (case estimateLoop sys w dirs (wrap64 (totalBytes + sz)) of
               (evs', r) \<Rightarrow>
                 (evs @ [EvPrintf (''ERR: skipping '' @ dir @ '' for estimation: '' @ err @ newline)]
                    @ evs', r))
          else (evs, Inl err))"

text \<open>The second loop: the events, the file system it leaves, and the error it returns with.\<close>

fun deleteLoop :: "'w os \<Rightarrow> bool \<Rightarrow> string list \<Rightarrow> 'w \<Rightarrow> event list \<times> 'w \<times> string option" where
  "deleteLoop sys dry [] w = ([], w, None)"
| "deleteLoop sys dry (dir # dirs) w =
     (if dry then
        (case deleteLoop sys dry dirs w of
           (evs', w', r) \<Rightarrow> (EvPrintf (''DRY-RUN: deleting '' @ dir @ newline) # evs', w', r))
      else
        (case os_RemoveAll sys w dir of
           (w1, None) \<Rightarrow>
             (case deleteLoop sys dry dirs w1 of
                (evs', w', r) \<Rightarrow>
                  ([EvPrintf (''deleting '' @ dir @ newline), EvRemoveAll dir] @ evs', w', r))
         | (w1, Some err) \<Rightarrow>
             if Contains err ''Permission denied'' then
               (case deleteLoop sys dry dirs w1 of
                  (evs', w', r) \<Rightarrow>
                    ([EvPrintf (''deleting '' @ dir @ newline), EvRemoveAll dir,
                      EvPrintf (''ERR: skipping '' @ dir @ '': '' @ err @ newline)] @ evs', w', r))
             else ([EvPrintf (''deleting '' @ dir @ newline), EvRemoveAll dir], w1, Some err)))"

definition summaryLine :: "int64 \<Rightarrow> string list \<Rightarrow> string" where
  "summaryLine totalBytes dirs =
     ''estimated savings ~'' @ humanizeBytes totalBytes @ '' from ''
       @ FormatInt (int (length dirs)) @ '' directories'' @ newline"

definition run :: "'w os \<Rightarrow> flags \<Rightarrow> 'w \<Rightarrow> event list \<times> 'w \<times> string option" where
  "run sys fl w =
     (if tmpRoot fl = [] then ([], w, Some ''missing required -tmp-root argument'')
      else
        case scanForToplevelStuff sys fl w of
          (evs0, Inl err) \<Rightarrow> (evs0, w, Some err)
        | (evs0, Inr dirs) \<Rightarrow>
            (case estimateLoop sys w dirs 0 of
               (evs1, Inl err) \<Rightarrow> (evs0 @ evs1, w, Some err)
             | (evs1, Inr totalBytes) \<Rightarrow>
                 (case deleteLoop sys (dryRun fl) dirs w of
                    (evs2, w', Some err) \<Rightarrow> (evs0 @ evs1 @ evs2, w', Some err)
                  | (evs2, w', None) \<Rightarrow>
                      (evs0 @ evs1 @ evs2 @ [EvPrintf (summaryLine totalBytes dirs)], w', None))))"

section \<open>Notions the properties are stated with\<close>

text \<open>
  A whole-string match: a match of the pattern that begins at the beginning of the text
  and ends at its end.
\<close>

definition FullMatch :: "regex \<Rightarrow> string \<Rightarrow> bool" where
  "FullMatch patt s = list_ex (\<lambda>c. snd c = []) (step patt (True, s))"

text \<open>A pattern every match of which ends at the end of the text.\<close>

fun endAnchored :: "regex \<Rightarrow> bool" where
  "endAnchored EndText = True"
| "endAnchored (Concat r1 r2) = endAnchored r2"
| "endAnchored (Alternate r1 r2) = (endAnchored r1 \<and> endAnchored r2)"
| "endAnchored r = False"

text \<open>\<open>shouldDelete\<close> with the comparison to \<open>"consul-test"\<close> taken out.\<close>

definition shouldDelete_without_exception :: "bool \<Rightarrow> string \<Rightarrow> bool" where
  "shouldDelete_without_exception dir name =
     (if dir then
        (if prefixLoop name eligiblePrefixes then True
         else False)
      else
        (if prefixLoop name eligibleFilePrefixes then True
         else if patternLoop name eligibleFilePatterns then True
         else False))"

text \<open>The events that are a removal, and those that are a run of the size tool.\<close>

fun isRemove :: "event \<Rightarrow> bool" where
  "isRemove (EvRemoveAll d) = True"
| "isRemove e = False"

fun isExec :: "event \<Rightarrow> bool" where
  "isExec (EvExec argv) = True"
| "isExec e = False"

text \<open>The range of \<open>int64\<close>.\<close>

definition inInt64 :: "int \<Rightarrow> bool" where
  "inInt64 v = (- (2 ^ 63) \<le> v \<and> v < 2 ^ 63)"

text \<open>
  The specification's condition on an error: its description contains the phrase
  "permission denied", letter case ignored.
\<close>

definition asciiLower :: "char \<Rightarrow> char" where
  "asciiLower c = (if inRange 65 90 c then char_of (of_char c + (32::nat)) else c)"

definition mentionsPermissionDenied :: "string \<Rightarrow> bool" where
  "mentionsPermissionDenied err = Contains (map asciiLower err) ''permission denied''"

subsection \<open>Three machines to run the program on\<close>

text \<open>
  The file system is the list of the paths that exist; \<open>/tmp\<close> holds four entries.
  On the first machine \<open>du\<close> reports 4096 bytes for every path but the heap profile,
  which it may not read, and every removal succeeds. On the second machine
  \<open>/tmp/snapshot.bin\<close> cannot be removed. On the third machine the \<open>du\<close> binary
  may not be executed.
\<close>

definition tmpListing :: "FileInfo list" where
  "tmpListing =
     [\<lparr>Name = ''go-build-123'', IsDir = True\<rparr>,
      \<lparr>Name = ''snapshot.bin'', IsDir = False\<rparr>,
      \<lparr>Name = ''keepme'', IsDir = True\<rparr>,
      \<lparr>Name = ''gopls.abc-heap.pb.gz'', IsDir = False\<rparr>]"

definition tmpPaths :: "string list" where
  "tmpPaths = [''/tmp/go-build-123'', ''/tmp/snapshot.bin'', ''/tmp/keepme'',
     ''/tmp/gopls.abc-heap.pb.gz'']"

definition machine :: "string list os" where
  "machine =
     \<lparr>ioutil_ReadDir = (\<lambda>w root.
        if root = ''/tmp'' then Inr tmpListing
        else Inl (''open '' @ root @ '': no such file or directory'')),
      cmd_Run = (\<lambda>w argv.
        if last argv = ''/tmp/gopls.abc-heap.pb.gz''
        then \<lparr>runErr = Some ''exit status 1'', stdout = [],
              stderr = ''du: cannot access /tmp/gopls.abc-heap.pb.gz: Permission denied'' @ newline\<rparr>
        else \<lparr>runErr = None, stdout = ''4096'' @ [CHR 0x09] @ last argv @ newline, stderr = []\<rparr>),
      os_RemoveAll = (\<lambda>w d. (removeAll d w, None)),
      filepath_Join = (\<lambda>root name. root @ ''/'' @ name)\<rparr>"

definition machine_read_only :: "string list os" where
  "machine_read_only =
     machine\<lparr>os_RemoveAll := (\<lambda>w d.
        if d = ''/tmp/snapshot.bin''
        then (w, Some ''unlinkat /tmp/snapshot.bin: read-only file system'')
        else (removeAll d w, None))\<rparr>"

definition machine_without_du :: "string list os" where
  "machine_without_du =
     machine\<lparr>cmd_Run := (\<lambda>w argv.
        \<lparr>runErr = Some ''fork/exec /usr/bin/du: permission denied'', stdout = [], stderr = []\<rparr>)\<rparr>"

definition liveFlags :: flags where
  "liveFlags = \<lparr>tmpRoot = ''/tmp'', dryRun = False\<rparr>"

section \<open>Lemmas\<close>

subsection \<open>Strings and patterns\<close>

lemma HasPrefix_iff: "HasPrefix s pfx \<longleftrightarrow> (\<exists>rest. s = pfx @ rest)"
proof
  assume "HasPrefix s pfx"
  then have "s = pfx @ drop (length pfx) s"
    by (metis HasPrefix_def append_take_drop_id)
  then show "\<exists>rest. s = pfx @ rest" ..
next
  assume "\<exists>rest. s = pfx @ rest"
  then show "HasPrefix s pfx" by (auto simp: HasPrefix_def)
qed

lemma prefixLoop_iff: "prefixLoop name pfxs \<longleftrightarrow> (\<exists>pfx\<in>set pfxs. HasPrefix name pfx)"
  by (induction pfxs) auto

lemma patternLoop_iff: "patternLoop name patts \<longleftrightarrow> (\<exists>patt\<in>set patts. MatchString patt name)"
  by (induction patts) auto

lemma Contains_iff: "Contains s substr \<longleftrightarrow> (\<exists>a b. s = a @ substr @ b)"
proof (induction s)
  case Nil
  then show ?case by auto
next
  case (Cons c cs)
  show ?case
  proof
    assume "Contains (c # cs) substr"
    then consider "HasPrefix (c # cs) substr" | "Contains cs substr" by auto
    then show "\<exists>a b. c # cs = a @ substr @ b"
    proof cases
      case 1
      then obtain rest where "c # cs = substr @ rest" by (auto simp: HasPrefix_iff)
      then have "c # cs = [] @ substr @ rest" by simp
      then show ?thesis by blast
    next
      case 2
      then obtain a b where "cs = a @ substr @ b" using Cons.IH by auto
      then have "c # cs = (c # a) @ substr @ b" by simp
      then show ?thesis by blast
    qed
  next
    assume "\<exists>a b. c # cs = a @ substr @ b"
    then obtain a b where ab: "c # cs = a @ substr @ b" by auto
    show "Contains (c # cs) substr"
    proof (cases a)
      case Nil
      then have "HasPrefix (c # cs) substr" using ab by (auto simp: HasPrefix_iff)
      then show ?thesis by simp
    next
      case (Cons x a')
      then have "cs = a' @ substr @ b" using ab by simp
      then have "Contains cs substr" using Cons.IH by auto
      then show ?thesis by simp
    qed
  qed
qed

text \<open>
  An error that \<open>run\<close> takes for a permission error mentions the phrase; so an error
  that does not mention it, in whatever case, is one of those \<open>run\<close> returns with.
\<close>

lemma Permission_denied_mentions:
  assumes "Contains err ''Permission denied''"
  shows "mentionsPermissionDenied err"
proof -
  obtain a b where "err = a @ ''Permission denied'' @ b"
    using assms by (auto simp: Contains_iff)
  then have "map asciiLower err =
      map asciiLower a @ map asciiLower ''Permission denied'' @ map asciiLower b"
    by simp
  moreover have "map asciiLower ''Permission denied'' = ''permission denied''"
    by code_simp
  ultimately show ?thesis
    unfolding mentionsPermissionDenied_def Contains_iff by metis
qed

lemma runeWidth_pos: "s \<noteq> [] \<Longrightarrow> 0 < runeWidth s"
  by (auto simp: runeWidth_def Let_def split: list.splits)

text \<open>
  A match never moves the cursor backwards, and a match that consumes nothing leaves
  the cursor as it was.
\<close>

lemma step_star_progress:
  "c' \<in> set (step r c) \<Longrightarrow>
     length (snd c') \<le> length (snd c) \<and> (length (snd c') = length (snd c) \<longrightarrow> c' = c)"
  "c' \<in> set (star r n c) \<Longrightarrow>
     length (snd c') \<le> length (snd c) \<and> (length (snd c') = length (snd c) \<longrightarrow> c' = c)"
proof (induction r c and r n c arbitrary: c' and c' rule: step_star.induct)
  case (1 w c)
  then have p: "length w \<le> length (snd c)" and c': "c' = (fst c \<and> w = [], drop (length w) (snd c))"
    by (auto simp: HasPrefix_def split: if_splits)
  have "length (snd c') = length (snd c) \<longrightarrow> w = []"
  proof
    assume "length (snd c') = length (snd c)"
    then have "length (snd c) - length w = length (snd c)" using c' by simp
    then have "length w = 0" using p by arith
    then show "w = []" by simp
  qed
  then show ?case using c' by (cases c) auto
next
  case (2 c)
  then show ?case
    using runeWidth_pos [of "snd c"] by (cases c) (auto split: list.splits if_splits)
next
  case (5 r1 r2 c)
  from "5.prems" obtain c1 where c1: "c1 \<in> set (step r1 c)" and c': "c' \<in> set (step r2 c1)"
    by auto
  have a: "length (snd c1) \<le> length (snd c) \<and> (length (snd c1) = length (snd c) \<longrightarrow> c1 = c)"
    using c1 by (rule "5.IH"(1))
  have b: "length (snd c') \<le> length (snd c1) \<and> (length (snd c') = length (snd c1) \<longrightarrow> c' = c1)"
    using c1 c' by (rule "5.IH"(2))
  show ?case using a b by auto
next
  case (9 r n c)
  show ?case
  proof (cases "c' = c")
    case True
    then show ?thesis by simp
  next
    case False
    with "9.prems" obtain c1 where c1: "c1 \<in> set (step r c)" and c': "c' \<in> set (star r n c1)"
      by auto
    have a: "length (snd c1) \<le> length (snd c) \<and> (length (snd c1) = length (snd c) \<longrightarrow> c1 = c)"
      using c1 by (rule "9.IH"(1))
    have b: "length (snd c') \<le> length (snd c1) \<and> (length (snd c') = length (snd c1) \<longrightarrow> c' = c1)"
      using c1 c' by (rule "9.IH"(2))
    show ?thesis using a b by auto
  qed
qed (auto split: if_splits)

lemma star_mono: "set (star r n c) \<subseteq> set (star r (Suc n) c)"
proof (induction n arbitrary: c)
  case 0
  then show ?case by simp
next
  case (Suc n)
  have "set (star r (Suc n) c) = insert c (\<Union>c1\<in>set (step r c). set (star r n c1))"
    by simp
  also have "\<dots> \<subseteq> insert c (\<Union>c1\<in>set (step r c). set (star r (Suc n) c1))"
    using Suc.IH by blast
  also have "\<dots> = set (star r (Suc (Suc n)) c)"
    by simp
  finally show ?case .
qed

text \<open>
  As many iterations as there are bytes left are enough: one more iteration reaches
  no further cursor.
\<close>

lemma star_enough: "length (snd c) \<le> n \<Longrightarrow> set (star r (Suc n) c) \<subseteq> set (star r n c)"
proof (induction n arbitrary: c)
  case 0
  have "\<And>c1. c1 \<in> set (step r c) \<Longrightarrow> c1 = c"
    using step_star_progress(1) [of _ r c] 0 by auto
  then show ?case by auto
next
  case (Suc n)
  show ?case
  proof
    fix c'
    assume "c' \<in> set (star r (Suc (Suc n)) c)"
    then consider "c' = c" | c1 where "c1 \<in> set (step r c)" "c' \<in> set (star r (Suc n) c1)"
      by auto
    then show "c' \<in> set (star r (Suc n) c)"
    proof cases
      case 1
      then show ?thesis by simp
    next
      case 2
      show ?thesis
      proof (cases "c1 = c")
        case True
        then show ?thesis using 2 by simp
      next
        case False
        then have "length (snd c1) < length (snd c)"
          using step_star_progress(1) [OF 2(1)] by auto
        then have "length (snd c1) \<le> n" using Suc.prems by simp
        then have "c' \<in> set (star r n c1)" using Suc.IH [of c1] 2(2) by blast
        then show ?thesis using 2(1) by auto
      qed
    qed
  qed
qed

lemma star_fuel: "set (star r (length (snd c) + k) c) = set (step (Star r) c)"
proof (induction k)
  case 0
  then show ?case by simp
next
  case (Suc k)
  have "set (star r (Suc (length (snd c) + k)) c) = set (star r (length (snd c) + k) c)"
    using star_enough [of c "length (snd c) + k" r] star_mono [of r "length (snd c) + k" c]
    by auto
  then show ?case using Suc by simp
qed

lemma star_le: "n \<le> m \<Longrightarrow> set (star r n c) \<subseteq> set (star r m c)"
proof (induction m)
  case 0
  then show ?case by simp
next
  case (Suc m)
  then show ?case using star_mono [of r m c] by (cases "n = Suc m") auto
qed

text \<open>
  So \<open>Star r\<close> is any number of iterations of \<open>r\<close>: its matches from a cursor end
  at the cursors that matches of \<open>r\<close>, one after the other, lead to.
\<close>

lemma step_Star_iff:
  "c' \<in> set (step (Star r) c) \<longleftrightarrow> (c, c') \<in> {(a, b). b \<in> set (step r a)}\<^sup>*"
proof
  have "c' \<in> set (star r n c) \<Longrightarrow> (c, c') \<in> {(a, b). b \<in> set (step r a)}\<^sup>*" for n
  proof (induction n arbitrary: c)
    case 0
    then show ?case by simp
  next
    case (Suc n)
    then consider "c' = c" | c1 where "c1 \<in> set (step r c)" "c' \<in> set (star r n c1)"
      by auto
    then show ?case
    proof cases
      case 1
      then show ?thesis by simp
    next
      case 2
      then have "(c1, c') \<in> {(a, b). b \<in> set (step r a)}\<^sup>*" using Suc.IH by blast
      moreover have "(c, c1) \<in> {(a, b). b \<in> set (step r a)}" using 2(1) by simp
      ultimately show ?thesis by (rule converse_rtrancl_into_rtrancl [rotated])
    qed
  qed
  then show "c' \<in> set (step (Star r) c) \<Longrightarrow> (c, c') \<in> {(a, b). b \<in> set (step r a)}\<^sup>*"
    by simp
next
  assume "(c, c') \<in> {(a, b). b \<in> set (step r a)}\<^sup>*"
  then have "\<exists>n. c' \<in> set (star r n c)"
  proof (induction rule: converse_rtrancl_induct)
    case base
    have "c' \<in> set (star r 0 c')" by simp
    then show ?case ..
  next
    case (step a b)
    then obtain n where "c' \<in> set (star r n b)" by blast
    then have "c' \<in> set (star r (Suc n) a)" using step.hyps(1) by auto
    then show ?case ..
  qed
  then obtain n where n: "c' \<in> set (star r n c)" ..
  show "c' \<in> set (step (Star r) c)"
  proof (cases "n \<le> length (snd c)")
    case True
    then show ?thesis using n star_le [OF True, of r c] by auto
  next
    case False
    then have "n = length (snd c) + (n - length (snd c))" by simp
    then show ?thesis using n star_fuel [of r c "n - length (snd c)"] by metis
  qed
qed

lemma step_endAnchored: "endAnchored r \<Longrightarrow> (b', s') \<in> set (step r c) \<Longrightarrow> s' = []"
proof (induction r arbitrary: c b' s')
  case (Concat r1 r2)
  from Concat.prems obtain c1 where "(b', s') \<in> set (step r2 c1)" by auto
  moreover have "endAnchored r2" using Concat.prems by simp
  ultimately show ?case by (rule Concat.IH(2) [rotated])
next
  case (Alternate r1 r2)
  show ?case
    using Alternate.IH(1) [of b' s' c] Alternate.IH(2) [of b' s' c] Alternate.prems by auto
qed (auto split: if_splits)

text \<open>A pattern that begins with \<open>^\<close> matches at no later start.\<close>

lemma search_BeginText_later: "search (Concat BeginText r) False s = False"
proof (induction "length s" arbitrary: s rule: less_induct)
  case less
  show ?case
  proof (cases "s = []")
    case True
    then show ?thesis by (simp add: search.simps)
  next
    case False
    then have "length (drop (runeWidth s) s) < length s"
      by (auto simp: runeWidth_def Let_def split: list.splits)
    then have "search (Concat BeginText r) False (drop (runeWidth s) s) = False"
      by (rule less)
    then show ?thesis using False by (subst search.simps) simp
  qed
qed

lemma MatchString_anchored:
  assumes "endAnchored r"
  shows "MatchString (Concat BeginText r) s = FullMatch (Concat BeginText r) s"
proof -
  have "MatchString (Concat BeginText r) s \<longleftrightarrow> step (Concat BeginText r) (True, s) \<noteq> []"
    unfolding MatchString_def
    by (subst search.simps) (simp add: search_BeginText_later)
  moreover have "step (Concat BeginText r) (True, s) \<noteq> [] \<longleftrightarrow> FullMatch (Concat BeginText r) s"
  proof -
    have "\<forall>c'\<in>set (step (Concat BeginText r) (True, s)). snd c' = []"
      using step_endAnchored [of "Concat BeginText r"] assms by auto
    then show ?thesis
      unfolding FullMatch_def list_ex_iff by (cases "step (Concat BeginText r) (True, s)") auto
  qed
  ultimately show ?thesis by simp
qed

lemma eligibleFilePatterns_anchored:
  "patt \<in> set eligibleFilePatterns \<Longrightarrow> MatchString patt s = FullMatch patt s"
  by (auto simp: eligibleFilePatterns_def MatchString_anchored)

text \<open>
  The patterns on some names. The second name of each line has a match inside it that
  is not the whole of it. In the last line \<open>.\<close> takes the three bytes of a rune.
\<close>

lemma eligibleFilePatterns_examples:
  "MatchString (eligibleFilePatterns ! 0) ''go.work.sum''"
  "\<not> MatchString (eligibleFilePatterns ! 0) ''old-go.work.sum''"
  "MatchString (eligibleFilePatterns ! 1) ''gopls.abc-heap.pb.gz''"
  "\<not> MatchString (eligibleFilePatterns ! 1) ''gopls.abc-heap.pb.gz.bak''"
  "MatchString (eligibleFilePatterns ! 2) ''gopls.1234-goroutines.txt''"
  "\<not> MatchString (eligibleFilePatterns ! 2) ''gopls.1234-goroutines.txt~''"
  "MatchString (eligibleFilePatterns ! 3) ''gopls-1.log''"
  "\<not> MatchString (eligibleFilePatterns ! 3) ''my-gopls-1.log''"
  "MatchString (eligibleFilePatterns ! 4) ''gopls.debug.zip''"
  "\<not> MatchString (eligibleFilePatterns ! 4) (''gopls.debug.zip'' @ newline)"
  "\<not> MatchString (eligibleFilePatterns ! 0) (''go.'' @ newline @ ''.sum'')"
  "MatchString (eligibleFilePatterns ! 1)
     (''gopls.abc-heap'' @ [CHR 0xE2, CHR 0x82, CHR 0xAC] @ ''pb.gz'')"
  by code_simp+

subsection \<open>Division by 1024\<close>

lemma sdiv_1024: "0 \<le> (v::int) \<Longrightarrow> v sdiv 1024 = v div 1024"
  by (cases "v = 0") (simp_all add: signed_divide_int_def)

lemma int_div_less_iff:
  fixes v k n :: int
  assumes k: "0 < k"
  shows "v div k < n \<longleftrightarrow> v < k * n"
proof -
  have eq: "v = k * (v div k) + v mod k" by simp
  have lo: "0 \<le> v mod k" and hi: "v mod k < k" using k by simp_all
  show ?thesis
  proof
    assume "v div k < n"
    then have "v div k + 1 \<le> n" by simp
    then have "k * (v div k + 1) \<le> k * n" using k by (simp add: mult_left_mono)
    then have "k * (v div k) + k \<le> k * n" by (simp add: algebra_simps)
    then show "v < k * n" using eq hi by linarith
  next
    assume a: "v < k * n"
    show "v div k < n"
    proof (rule ccontr)
      assume "\<not> v div k < n"
      then have "n \<le> v div k" by simp
      then have "k * n \<le> k * (v div k)" using k by (simp add: mult_left_mono)
      then show False using a eq lo by linarith
    qed
  qed
qed

lemma humanizeBytes_closed:
  "humanizeBytes v =
    (if v < 1024 then FormatInt v @ ''B''
     else if v < 1024 ^ 2 then FormatInt (v div 1024) @ ''K''
     else if v < 1024 ^ 3 then FormatInt (v div 1024 ^ 2) @ ''M''
     else if v < 1024 ^ 4 then FormatInt (v div 1024 ^ 3) @ ''G''
     else FormatInt (v div 1024 ^ 4) @ ''T'')"
proof (cases "v < 1024")
  case True
  then show ?thesis by (simp add: humanizeBytes_def unitF_def)
next
  case False
  then have v0: "0 \<le> v" by simp
  have d1: "v sdiv 1024 = v div 1024" using v0 by (rule sdiv_1024)
  have d2: "(v div 1024) sdiv 1024 = v div 1024 ^ 2"
    using v0 by (simp add: sdiv_1024 zdiv_zmult2_eq)
  have d3: "(v div 1024 ^ 2) sdiv 1024 = v div 1024 ^ 3"
    using v0 by (simp add: sdiv_1024 zdiv_zmult2_eq)
  have d4: "(v div 1024 ^ 3) sdiv 1024 = v div 1024 ^ 4"
    using v0 by (simp add: sdiv_1024 zdiv_zmult2_eq)
  have c1: "v div 1024 < 1024 \<longleftrightarrow> v < 1024 ^ 2"
    using int_div_less_iff [of 1024 v 1024] by simp
  have c2: "v div 1024 ^ 2 < 1024 \<longleftrightarrow> v < 1024 ^ 3"
    using int_div_less_iff [of "1024 ^ 2" v 1024] by simp
  have c3: "v div 1024 ^ 3 < 1024 \<longleftrightarrow> v < 1024 ^ 4"
    using int_div_less_iff [of "1024 ^ 3" v 1024] by simp
  show ?thesis using False
    by (simp only: humanizeBytes_def unitF_def Let_def d1 d2 d3 d4 c1 c2 c3 if_False append_Nil)
qed

lemma wrap64_id: "inInt64 v \<Longrightarrow> wrap64 v = v"
  by (simp add: inInt64_def wrap64_def)

subsection \<open>The scan\<close>

lemma scanLoop_append:
  "scanLoop sys root files roots =
     roots @ map (\<lambda>st. filepath_Join sys root (Name st))
               (filter (\<lambda>st. shouldDelete (IsDir st) (Name st)) files)"
  by (induction files arbitrary: roots) auto

lemma scan_events: "fst (scanForToplevelStuff sys fl w) = [EvReadDir (tmpRoot fl)]"
  by (simp add: scanForToplevelStuff_def split: sum.splits)

lemma scan_dryRun: "scanForToplevelStuff sys (fl\<lparr>dryRun := b\<rparr>) w = scanForToplevelStuff sys fl w"
  by (simp add: scanForToplevelStuff_def split: sum.splits)

subsection \<open>Size estimation\<close>

lemma estimateTreeSize_empty:
  "estimateTreeSize sys w [] = ([], 0, Some ''missing directory name'')"
  by (simp add: estimateTreeSize_def)

lemma estimateTreeSize_events:
  "d \<noteq> [] \<Longrightarrow> fst (estimateTreeSize sys w d) = [EvExec (duCommand d)]"
  by (simp add: estimateTreeSize_def Let_def split: option.splits)

text \<open>Every error of \<open>estimateTreeSize\<close> comes with the size 0.\<close>

lemma estimateTreeSize_error_zero:
  "estimateTreeSize sys w d = (evs, sz, Some err) \<Longrightarrow> sz = 0"
  by (auto simp: estimateTreeSize_def Let_def split: if_splits option.splits)

lemma estimateTreeSize_no_remove:
  "estimateTreeSize sys w d = (evs, sz, err) \<Longrightarrow> filter isRemove evs = []"
  using estimateTreeSize_events [of d sys w] estimateTreeSize_empty [of sys w]
  by (cases "d = []") auto

lemma missing_name_not_permission:
  "\<not> Contains ''missing directory name'' ''Permission denied''"
  by code_simp

lemma estimateTreeSize_execs:
  assumes "estimateTreeSize sys w d = (evs, sz, err)"
    and "err = None \<or> Contains (the err) ''Permission denied''"
  shows "filter isExec evs = [EvExec (duCommand d)]"
proof (cases "d = []")
  case True
  then show ?thesis using assms estimateTreeSize_empty [of sys w] missing_name_not_permission
    by auto
next
  case False
  then show ?thesis using assms estimateTreeSize_events [of d sys w] by simp
qed

text \<open>
  What the first loop does with an error: one whose description contains
  \<open>Permission denied\<close>, spelt so, is printed and the loop goes on with the total as it
  was; any other error ends the loop.
\<close>

lemma estimateLoop_Permission_denied:
  assumes "estimateTreeSize sys w dir = (evs, sz, Some err)"
    and "Contains err ''Permission denied''"
    and "inInt64 tb"
  shows "estimateLoop sys w (dir # dirs) tb =
           (case estimateLoop sys w dirs tb of
              (evs', r) \<Rightarrow>
                (evs @ [EvPrintf (''ERR: skipping '' @ dir @ '' for estimation: '' @ err @ newline)]
                   @ evs', r))"
proof -
  have "sz = 0" using assms(1) by (rule estimateTreeSize_error_zero)
  then have "wrap64 (tb + sz) = tb" using assms(3) by (simp add: wrap64_id)
  then show ?thesis using assms(1,2) by simp
qed

lemma estimateLoop_other_error:
  assumes "estimateTreeSize sys w dir = (evs, sz, Some err)"
    and "\<not> Contains err ''Permission denied''"
  shows "estimateLoop sys w (dir # dirs) tb = (evs, Inl err)"
  using assms by simp

lemma estimateLoop_no_remove:
  "estimateLoop sys w dirs tb = (evs, r) \<Longrightarrow> filter isRemove evs = []"
proof (induction dirs arbitrary: tb evs r)
  case Nil
  then show ?case by simp
next
  case (Cons dir dirs)
  then show ?case
    by (auto split: prod.splits option.splits if_splits dest: estimateTreeSize_no_remove)
qed

text \<open>A first loop that ends has run \<open>du\<close> on every candidate, in order.\<close>

lemma estimateLoop_execs:
  "estimateLoop sys w dirs tb = (evs, Inr t) \<Longrightarrow>
     filter isExec evs = map (\<lambda>d. EvExec (duCommand d)) dirs"
proof (induction dirs arbitrary: tb evs)
  case Nil
  then show ?case by simp
next
  case (Cons dir dirs)
  obtain evs1 sz err where e: "estimateTreeSize sys w dir = (evs1, sz, err)"
    by (cases "estimateTreeSize sys w dir") auto
  obtain evs2 r where l: "estimateLoop sys w dirs (wrap64 (tb + sz)) = (evs2, r)"
    by (cases "estimateLoop sys w dirs (wrap64 (tb + sz))")
  have ok: "err = None \<or> Contains (the err) ''Permission denied''"
    using Cons.prems e by (cases err) (auto split: if_splits)
  have r: "r = Inr t" using Cons.prems e l ok by (cases err) (auto split: if_splits)
  have x1: "filter isExec evs1 = [EvExec (duCommand dir)]"
    using e ok by (rule estimateTreeSize_execs)
  have x2: "filter isExec evs2 = map (\<lambda>d. EvExec (duCommand d)) dirs"
    using l r Cons.IH by simp
  show ?case using Cons.prems e l ok x1 x2 by (cases err) (auto split: if_splits)
qed

subsection \<open>Deletion\<close>

lemma deleteLoop_no_exec:
  "deleteLoop sys dry dirs w = (evs, w', r) \<Longrightarrow> filter isExec evs = []"
proof (induction dirs arbitrary: w evs w' r)
  case Nil
  then show ?case by simp
next
  case (Cons dir dirs)
  then show ?case
    by (auto split: prod.splits option.splits if_splits)
qed

lemma deleteLoop_dry:
  "deleteLoop sys True dirs w =
     (map (\<lambda>dir. EvPrintf (''DRY-RUN: deleting '' @ dir @ newline)) dirs, w, None)"
  by (induction dirs) auto

lemma deleteLoop_append:
  "deleteLoop sys dry pre w = (evsP, wP, None) \<Longrightarrow>
     deleteLoop sys dry (pre @ rest) w =
       (case deleteLoop sys dry rest wP of (evs, w', r) \<Rightarrow> (evsP @ evs, w', r))"
proof (induction pre arbitrary: w evsP)
  case Nil
  then show ?case by (simp split: prod.splits)
next
  case (Cons dir pre)
  then show ?case
    by (auto split: prod.splits option.splits if_splits)
qed

lemma deleteLoop_removes:
  "deleteLoop sys False dirs w = (evs, w', None) \<Longrightarrow> filter isRemove evs = map EvRemoveAll dirs"
proof (induction dirs arbitrary: w evs)
  case Nil
  then show ?case by simp
next
  case (Cons dir dirs)
  then show ?case
    by (auto split: prod.splits option.splits if_splits)
qed

subsection \<open>The four ways \<open>run\<close> ends once the root is given\<close>

lemma run_scan_error:
  "tmpRoot fl \<noteq> [] \<Longrightarrow> scanForToplevelStuff sys fl w = (evs0, Inl err) \<Longrightarrow>
     run sys fl w = (evs0, w, Some err)"
  by (simp add: run_def)

lemma run_estimate_error:
  "tmpRoot fl \<noteq> [] \<Longrightarrow> scanForToplevelStuff sys fl w = (evs0, Inr dirs) \<Longrightarrow>
   estimateLoop sys w dirs 0 = (evs1, Inl err) \<Longrightarrow>
     run sys fl w = (evs0 @ evs1, w, Some err)"
  by (simp add: run_def)

lemma run_delete_error:
  "tmpRoot fl \<noteq> [] \<Longrightarrow> scanForToplevelStuff sys fl w = (evs0, Inr dirs) \<Longrightarrow>
   estimateLoop sys w dirs 0 = (evs1, Inr tb) \<Longrightarrow>
   deleteLoop sys (dryRun fl) dirs w = (evs2, w', Some err) \<Longrightarrow>
     run sys fl w = (evs0 @ evs1 @ evs2, w', Some err)"
  by (simp add: run_def)

lemma run_completes:
  "tmpRoot fl \<noteq> [] \<Longrightarrow> scanForToplevelStuff sys fl w = (evs0, Inr dirs) \<Longrightarrow>
   estimateLoop sys w dirs 0 = (evs1, Inr tb) \<Longrightarrow>
   deleteLoop sys (dryRun fl) dirs w = (evs2, w', None) \<Longrightarrow>
     run sys fl w = (evs0 @ evs1 @ evs2 @ [EvPrintf (summaryLine tb dirs)], w', None)"
  by (simp add: run_def)

section \<open>The properties\<close>

subsection \<open>Which entries are deleted\<close>

text \<open>
  C1. A directory is deleted exactly when its name is \<open>consul-test\<close> or begins with
  one of the directory prefixes; a file exactly when its name begins with one of the
  file prefixes or one of the file patterns matches the whole of it. The rules for
  directories say nothing of files, and those for files nothing of directories.
\<close>

theorem shouldDelete_rules:
  "(shouldDelete True n \<longleftrightarrow>
      n = ''consul-test'' \<or> (\<exists>pfx\<in>set eligiblePrefixes. \<exists>rest. n = pfx @ rest))
   \<and> (shouldDelete False n \<longleftrightarrow>
      (\<exists>pfx\<in>set eligibleFilePrefixes. \<exists>rest. n = pfx @ rest)
      \<or> (\<exists>patt\<in>set eligibleFilePatterns. FullMatch patt n))"
  by (simp add: shouldDelete_def prefixLoop_iff patternLoop_iff HasPrefix_iff
      eligibleFilePatterns_anchored)

theorem shouldDelete_rules_witness:
  "shouldDelete True ''consul-test'' \<and> shouldDelete True ''go-build-123''
   \<and> \<not> shouldDelete True ''snapshot.bin'' \<and> \<not> shouldDelete True ''go.work.sum''
   \<and> shouldDelete False ''snapshot.bin'' \<and> shouldDelete False ''go.work.sum''
   \<and> \<not> shouldDelete False ''go-build-123'' \<and> \<not> shouldDelete False ''consul-test''
   \<and> \<not> shouldDelete False ''my-go.work.sum''"
proof -
  have p: "\<And>n. (\<exists>pfx\<in>set eligiblePrefixes. \<exists>rest. n = pfx @ rest) = prefixLoop n eligiblePrefixes"
    "\<And>n. (\<exists>pfx\<in>set eligibleFilePrefixes. \<exists>rest. n = pfx @ rest) = prefixLoop n eligibleFilePrefixes"
    by (simp_all add: prefixLoop_iff HasPrefix_iff)
  have q: "\<And>n. (\<exists>patt\<in>set eligibleFilePatterns. FullMatch patt n) = list_ex (\<lambda>patt. FullMatch patt n) eligibleFilePatterns"
    by (simp add: list_ex_iff)
  have d: "prefixLoop ''go-build-123'' eligiblePrefixes" "\<not> prefixLoop ''snapshot.bin'' eligiblePrefixes"
    "\<not> prefixLoop ''go.work.sum'' eligiblePrefixes"
    by code_simp+
  have f: "prefixLoop ''snapshot.bin'' eligibleFilePrefixes"
    "\<not> prefixLoop ''go.work.sum'' eligibleFilePrefixes"
    "\<not> prefixLoop ''go-build-123'' eligibleFilePrefixes"
    "\<not> prefixLoop ''consul-test'' eligibleFilePrefixes"
    "\<not> prefixLoop ''my-go.work.sum'' eligibleFilePrefixes"
    by code_simp+
  have m: "list_ex (\<lambda>patt. FullMatch patt ''go.work.sum'') eligibleFilePatterns"
    "\<not> list_ex (\<lambda>patt. FullMatch patt ''go-build-123'') eligibleFilePatterns"
    "\<not> list_ex (\<lambda>patt. FullMatch patt ''consul-test'') eligibleFilePatterns"
    "\<not> list_ex (\<lambda>patt. FullMatch patt ''my-go.work.sum'') eligibleFilePatterns"
    by code_simp+
  show ?thesis
    using shouldDelete_rules [of "''consul-test''"] shouldDelete_rules [of "''go-build-123''"]
      shouldDelete_rules [of "''snapshot.bin''"] shouldDelete_rules [of "''go.work.sum''"]
      shouldDelete_rules [of "''my-go.work.sum''"]
    unfolding p q using d f m by simp
qed

text \<open>
  C10. The comparison to \<open>consul-test\<close> changes nothing: \<open>consul\<close> is one of the
  directory prefixes and \<open>consul-test\<close> begins with it, so \<open>shouldDelete\<close> without the
  comparison returns what \<open>shouldDelete\<close> returns, for every entry.
\<close>

theorem consul_test_exception_redundant:
  "shouldDelete_without_exception dir name = shouldDelete dir name
   \<and> ''consul'' \<in> set eligiblePrefixes \<and> HasPrefix ''consul-test'' ''consul''"
proof -
  have "prefixLoop ''consul-test'' eligiblePrefixes"
    by (simp add: eligiblePrefixes_def HasPrefix_def)
  then show ?thesis
    by (simp add: shouldDelete_without_exception_def shouldDelete_def)
      (simp add: eligiblePrefixes_def HasPrefix_def)
qed

theorem consul_test_exception_redundant_witness:
  "shouldDelete_without_exception True ''consul-test'' \<and> shouldDelete True ''consul-test''"
proof -
  have "shouldDelete True ''consul-test''" by code_simp
  then show ?thesis
    using consul_test_exception_redundant [of True "''consul-test''"] by simp
qed

text \<open>
  C2. When the listing of the root succeeds, the candidates are the eligible entries of
  the listing and no others, each as the root joined with the entry's name, in the order
  of the listing. For the listing \<open>go-build-123\<close> (a directory), \<open>snapshot.bin\<close>
  (a file), \<open>keepme\<close> (a directory), \<open>gopls.abc-heap.pb.gz\<close> (a file) they are
  \<open>go-build-123\<close>, \<open>snapshot.bin\<close> and \<open>gopls.abc-heap.pb.gz\<close>, without \<open>keepme\<close>.
\<close>

theorem scan_candidates:
  assumes "ioutil_ReadDir sys w (tmpRoot fl) = Inr files"
  shows "snd (scanForToplevelStuff sys fl w) =
           Inr (map (\<lambda>st. filepath_Join sys (tmpRoot fl) (Name st))
                  (filter (\<lambda>st. shouldDelete (IsDir st) (Name st)) files))
       \<and> (files = tmpListing \<longrightarrow>
            snd (scanForToplevelStuff sys fl w) =
              Inr (map (filepath_Join sys (tmpRoot fl))
                     [''go-build-123'', ''snapshot.bin'', ''gopls.abc-heap.pb.gz'']))"
proof -
  have a: "snd (scanForToplevelStuff sys fl w) =
           Inr (map (\<lambda>st. filepath_Join sys (tmpRoot fl) (Name st))
                  (filter (\<lambda>st. shouldDelete (IsDir st) (Name st)) files))"
    using assms by (simp add: scanForToplevelStuff_def scanLoop_append)
  have b: "filter (\<lambda>st. shouldDelete (IsDir st) (Name st)) tmpListing =
           [\<lparr>Name = ''go-build-123'', IsDir = True\<rparr>, \<lparr>Name = ''snapshot.bin'', IsDir = False\<rparr>,
            \<lparr>Name = ''gopls.abc-heap.pb.gz'', IsDir = False\<rparr>]"
    by code_simp
  show ?thesis using a b by simp
qed

theorem scan_candidates_witness:
  "ioutil_ReadDir machine tmpPaths (tmpRoot liveFlags) = Inr tmpListing
   \<and> snd (scanForToplevelStuff machine liveFlags tmpPaths) =
       Inr [''/tmp/go-build-123'', ''/tmp/snapshot.bin'', ''/tmp/gopls.abc-heap.pb.gz'']"
proof -
  have h: "ioutil_ReadDir machine tmpPaths (tmpRoot liveFlags) = Inr tmpListing"
    by (simp add: machine_def liveFlags_def)
  have j: "filepath_Join machine (tmpRoot liveFlags) = (\<lambda>name. ''/tmp/'' @ name)"
    by (simp add: machine_def liveFlags_def)
  have "snd (scanForToplevelStuff machine liveFlags tmpPaths) =
          Inr (map (filepath_Join machine (tmpRoot liveFlags))
                 [''go-build-123'', ''snapshot.bin'', ''gopls.abc-heap.pb.gz''])"
    using scan_candidates [OF h] by blast
  then show ?thesis using h by (simp add: j)
qed

subsection \<open>Size estimation\<close>

text \<open>
  C8. For the empty path \<open>estimateTreeSize\<close> returns 0 and the error
  "missing directory name", and does not run \<open>du\<close>, whatever the machine.
\<close>

theorem estimateTreeSize_empty_path:
  "estimateTreeSize sys w [] = ([], 0, Some ''missing directory name'')
   \<and> filter isExec (fst (estimateTreeSize sys w [])) = []"
  by (simp add: estimateTreeSize_def)

theorem estimateTreeSize_empty_path_witness:
  "estimateTreeSize machine tmpPaths [] = ([], 0, Some ''missing directory name'')
   \<and> fst (estimateTreeSize machine tmpPaths ''/tmp/keepme'') = [EvExec (duCommand ''/tmp/keepme'')]"
proof -
  have "fst (estimateTreeSize machine tmpPaths ''/tmp/keepme'') = [EvExec (duCommand ''/tmp/keepme'')]"
    by (simp add: estimateTreeSize_events)
  then show ?thesis using estimateTreeSize_empty_path [of machine tmpPaths] by simp
qed

text \<open>
  C3. Where \<open>du\<close> itself may not be executed, the error of the estimation reads
  "fork/exec /usr/bin/du: permission denied: ". It mentions the phrase, in lower case,
  and \<open>run\<close> does not skip the candidate: it returns with this error after the first
  candidate, having printed nothing, for \<open>run\<close> looks for \<open>Permission denied\<close> with a
  capital P.
\<close>

theorem run_aborts_on_lower_case_permission_denied:
  "run machine_without_du liveFlags tmpPaths =
     ([EvReadDir ''/tmp'', EvExec (duCommand ''/tmp/go-build-123'')], tmpPaths,
      Some ''fork/exec /usr/bin/du: permission denied: '')
   \<and> mentionsPermissionDenied ''fork/exec /usr/bin/du: permission denied: ''
   \<and> \<not> Contains ''fork/exec /usr/bin/du: permission denied: '' ''Permission denied''"
  by code_simp

subsection \<open>The order of the two loops\<close>

text \<open>
  C4. The events of a run split in two: no removal in the first part, no run of \<open>du\<close>
  in the second. When there is a second part, the first part holds the run of \<open>du\<close>
  on every candidate: the first loop has ended before anything is removed.
\<close>

theorem run_estimates_before_deleting:
  "\<exists>pre post. fst (run sys fl w) = pre @ post
      \<and> filter isRemove pre = [] \<and> filter isExec post = []
      \<and> (post \<noteq> [] \<longrightarrow>
           (\<exists>dirs. snd (scanForToplevelStuff sys fl w) = Inr dirs
              \<and> filter isExec pre = map (\<lambda>d. EvExec (duCommand d)) dirs))"
proof (cases "tmpRoot fl = []")
  case True
  then have "fst (run sys fl w) = [] @ []" by (simp add: run_def)
  then show ?thesis by (intro exI [of _ "[]"]) simp
next
  case False
  obtain evs0 r0 where s: "scanForToplevelStuff sys fl w = (evs0, r0)"
    by (cases "scanForToplevelStuff sys fl w")
  have e0: "evs0 = [EvReadDir (tmpRoot fl)]" using scan_events [of sys fl w] s by simp
  show ?thesis
  proof (cases r0)
    case (Inl err)
    then have "fst (run sys fl w) = evs0 @ []" using False s by (simp add: run_scan_error)
    then show ?thesis using e0 by (intro exI [of _ evs0] exI [of _ "[]"]) simp
  next
    case (Inr dirs)
    note s' = s [unfolded Inr]
    obtain evs1 r1 where l1: "estimateLoop sys w dirs 0 = (evs1, r1)"
      by (cases "estimateLoop sys w dirs 0")
    have n1: "filter isRemove evs1 = []" using l1 by (rule estimateLoop_no_remove)
    show ?thesis
    proof (cases r1)
      case (Inl err)
      then have "fst (run sys fl w) = (evs0 @ evs1) @ []"
        using False s' l1 by (simp add: run_estimate_error)
      then show ?thesis using e0 n1 by (intro exI [of _ "evs0 @ evs1"] exI [of _ "[]"]) simp
    next
      case (Inr tb)
      note l1' = l1 [unfolded Inr]
      obtain evs2 w2 r2 where l2: "deleteLoop sys (dryRun fl) dirs w = (evs2, w2, r2)"
        by (cases "deleteLoop sys (dryRun fl) dirs w")
      have n2: "filter isExec evs2 = []" using l2 by (rule deleteLoop_no_exec)
      have x1: "filter isExec evs1 = map (\<lambda>d. EvExec (duCommand d)) dirs"
        using l1' by (rule estimateLoop_execs)
      have "\<exists>post. fst (run sys fl w) = (evs0 @ evs1) @ post \<and> filter isExec post = []"
      proof (cases r2)
        case None
        then show ?thesis using run_completes [OF False s' l1'] l2 n2 by simp
      next
        case (Some err)
        then show ?thesis using run_delete_error [OF False s' l1'] l2 n2 by simp
      qed
      then obtain post where "fst (run sys fl w) = (evs0 @ evs1) @ post" "filter isExec post = []"
        by blast
      then show ?thesis using e0 n1 x1 s'
        by (intro exI [of _ "evs0 @ evs1"] exI [of _ post]) simp
    qed
  qed
qed

theorem run_estimates_before_deleting_witness:
  "\<exists>pre post.
     [EvReadDir ''/tmp'',
      EvExec (duCommand ''/tmp/go-build-123''),
      EvExec (duCommand ''/tmp/snapshot.bin''),
      EvExec (duCommand ''/tmp/gopls.abc-heap.pb.gz''),
      EvPrintf (''ERR: skipping /tmp/gopls.abc-heap.pb.gz for estimation: exit status 1: ''
        @ ''du: cannot access /tmp/gopls.abc-heap.pb.gz: Permission denied'' @ newline @ newline),
      EvPrintf (''deleting /tmp/go-build-123'' @ newline),
      EvRemoveAll ''/tmp/go-build-123'',
      EvPrintf (''deleting /tmp/snapshot.bin'' @ newline),
      EvRemoveAll ''/tmp/snapshot.bin'',
      EvPrintf (''deleting /tmp/gopls.abc-heap.pb.gz'' @ newline),
      EvRemoveAll ''/tmp/gopls.abc-heap.pb.gz'',
      EvPrintf (''estimated savings ~8K from 3 directories'' @ newline)] = pre @ post
     \<and> filter isRemove pre = [] \<and> filter isExec post = []
     \<and> (post \<noteq> [] \<longrightarrow>
          filter isExec pre =
            map (\<lambda>d. EvExec (duCommand d))
              [''/tmp/go-build-123'', ''/tmp/snapshot.bin'', ''/tmp/gopls.abc-heap.pb.gz''])"
proof -
  have r: "fst (run machine liveFlags tmpPaths) =
     [EvReadDir ''/tmp'',
      EvExec (duCommand ''/tmp/go-build-123''),
      EvExec (duCommand ''/tmp/snapshot.bin''),
      EvExec (duCommand ''/tmp/gopls.abc-heap.pb.gz''),
      EvPrintf (''ERR: skipping /tmp/gopls.abc-heap.pb.gz for estimation: exit status 1: ''
        @ ''du: cannot access /tmp/gopls.abc-heap.pb.gz: Permission denied'' @ newline @ newline),
      EvPrintf (''deleting /tmp/go-build-123'' @ newline),
      EvRemoveAll ''/tmp/go-build-123'',
      EvPrintf (''deleting /tmp/snapshot.bin'' @ newline),
      EvRemoveAll ''/tmp/snapshot.bin'',
      EvPrintf (''deleting /tmp/gopls.abc-heap.pb.gz'' @ newline),
      EvRemoveAll ''/tmp/gopls.abc-heap.pb.gz'',
      EvPrintf (''estimated savings ~8K from 3 directories'' @ newline)]"
    by code_simp
  have s: "snd (scanForToplevelStuff machine liveFlags tmpPaths) =
     Inr [''/tmp/go-build-123'', ''/tmp/snapshot.bin'', ''/tmp/gopls.abc-heap.pb.gz'']"
    by code_simp
  show ?thesis
    using run_estimates_before_deleting [of machine liveFlags tmpPaths]
    unfolding r s by simp
qed

subsection \<open>Dry runs\<close>

text \<open>
  C5. A dry run removes nothing and leaves the file system as it was. It runs \<open>du\<close>
  as the live run on the same machine does. When the live run ends without error, so
  does the dry run, and both print the same summary last; and the summary of a dry run
  is that of the total and the candidates the first loop computes, in either mode.
\<close>

theorem dry_run_deletes_nothing_same_summary:
  assumes dry: "run sys (fl\<lparr>dryRun := True\<rparr>) w = (evsD, wD, rD)"
    and live: "run sys (fl\<lparr>dryRun := False\<rparr>) w = (evsL, wL, rL)"
  shows "filter isRemove evsD = [] \<and> wD = w
      \<and> filter isExec evsD = filter isExec evsL
      \<and> (rL = None \<longrightarrow> rD = None \<and> last evsD = last evsL)
      \<and> (rD = None \<longrightarrow>
           (\<exists>dirs evs1 tb.
              snd (scanForToplevelStuff sys fl w) = Inr dirs
              \<and> estimateLoop sys w dirs 0 = (evs1, Inr tb)
              \<and> last evsD = EvPrintf (summaryLine tb dirs)
              \<and> (rL = None \<longrightarrow> last evsL = EvPrintf (summaryLine tb dirs))))"
proof (cases "tmpRoot fl = []")
  case True
  then show ?thesis using dry live by (auto simp: run_def)
next
  case False
  then have tD: "tmpRoot (fl\<lparr>dryRun := True\<rparr>) \<noteq> []" and tL: "tmpRoot (fl\<lparr>dryRun := False\<rparr>) \<noteq> []"
    by simp_all
  obtain evs0 r0 where s: "scanForToplevelStuff sys fl w = (evs0, r0)"
    by (cases "scanForToplevelStuff sys fl w")
  have e0: "evs0 = [EvReadDir (tmpRoot fl)]" using scan_events [of sys fl w] s by simp
  show ?thesis
  proof (cases r0)
    case (Inl err)
    have "run sys (fl\<lparr>dryRun := True\<rparr>) w = (evs0, w, Some err)"
      using tD s Inl by (intro run_scan_error) (simp_all add: scan_dryRun)
    moreover have "run sys (fl\<lparr>dryRun := False\<rparr>) w = (evs0, w, Some err)"
      using tL s Inl by (intro run_scan_error) (simp_all add: scan_dryRun)
    ultimately show ?thesis using dry live e0 by auto
  next
    case (Inr dirs)
    have sD: "scanForToplevelStuff sys (fl\<lparr>dryRun := True\<rparr>) w = (evs0, Inr dirs)"
      and sL: "scanForToplevelStuff sys (fl\<lparr>dryRun := False\<rparr>) w = (evs0, Inr dirs)"
      using s Inr by (simp_all add: scan_dryRun)
    obtain evs1 r1 where l1: "estimateLoop sys w dirs 0 = (evs1, r1)"
      by (cases "estimateLoop sys w dirs 0")
    have n1: "filter isRemove evs1 = []" using l1 by (rule estimateLoop_no_remove)
    show ?thesis
    proof (cases r1)
      case (Inl err)
      have "run sys (fl\<lparr>dryRun := True\<rparr>) w = (evs0 @ evs1, w, Some err)"
        using tD sD l1 Inl by (intro run_estimate_error) simp_all
      moreover have "run sys (fl\<lparr>dryRun := False\<rparr>) w = (evs0 @ evs1, w, Some err)"
        using tL sL l1 Inl by (intro run_estimate_error) simp_all
      ultimately show ?thesis using dry live e0 n1 by auto
    next
      case (Inr tb)
      note l1' = l1 [unfolded Inr]
      let ?dryLines = "map (\<lambda>dir. EvPrintf (''DRY-RUN: deleting '' @ dir @ newline)) dirs"
      have dD: "deleteLoop sys (dryRun (fl\<lparr>dryRun := True\<rparr>)) dirs w = (?dryLines, w, None)"
        by (simp add: deleteLoop_dry)
      have rD: "run sys (fl\<lparr>dryRun := True\<rparr>) w =
                  (evs0 @ evs1 @ ?dryLines @ [EvPrintf (summaryLine tb dirs)], w, None)"
        using tD sD l1' dD by (rule run_completes)
      obtain evs2 w2 r2
        where l2: "deleteLoop sys (dryRun (fl\<lparr>dryRun := False\<rparr>)) dirs w = (evs2, w2, r2)"
        by (cases "deleteLoop sys (dryRun (fl\<lparr>dryRun := False\<rparr>)) dirs w")
      have n2: "filter isExec evs2 = []" using l2 by (rule deleteLoop_no_exec)
      have fD: "filter isRemove ?dryLines = []" and xD: "filter isExec ?dryLines = []"
        by (induction dirs) simp_all
      have evsD: "evsD = evs0 @ evs1 @ ?dryLines @ [EvPrintf (summaryLine tb dirs)]"
        and wD: "wD = w" and rDN: "rD = None"
        using dry rD by simp_all
      have p1: "filter isRemove evsD = []" using evsD e0 n1 fD by simp
      have p5: "snd (scanForToplevelStuff sys fl w) = Inr dirs" using s \<open>r0 = Inr dirs\<close> by simp
      show ?thesis
      proof (cases r2)
        case None
        have "run sys (fl\<lparr>dryRun := False\<rparr>) w =
                (evs0 @ evs1 @ evs2 @ [EvPrintf (summaryLine tb dirs)], w2, None)"
          using tL sL l1' l2 [unfolded None] by (rule run_completes)
        then have evsL: "evsL = evs0 @ evs1 @ evs2 @ [EvPrintf (summaryLine tb dirs)]"
          using live by simp
        show ?thesis using p1 wD rDN p5 l1' evsD evsL e0 n2 xD by auto
      next
        case (Some err)
        have "run sys (fl\<lparr>dryRun := False\<rparr>) w = (evs0 @ evs1 @ evs2, w2, Some err)"
          using tL sL l1' l2 [unfolded Some] by (rule run_delete_error)
        then have evsL: "evsL = evs0 @ evs1 @ evs2" and rL: "rL = Some err"
          using live by simp_all
        show ?thesis using p1 wD rDN p5 l1' evsD evsL rL e0 n2 xD by auto
      qed
    qed
  qed
qed

theorem dry_run_deletes_nothing_same_summary_witness:
  "snd (run machine (liveFlags\<lparr>dryRun := True\<rparr>) tmpPaths) = (tmpPaths, None)
   \<and> snd (run machine (liveFlags\<lparr>dryRun := False\<rparr>) tmpPaths) = ([''/tmp/keepme''], None)
   \<and> filter isRemove (fst (run machine (liveFlags\<lparr>dryRun := True\<rparr>) tmpPaths)) = []
   \<and> last (fst (run machine (liveFlags\<lparr>dryRun := True\<rparr>) tmpPaths)) =
       EvPrintf (''estimated savings ~8K from 3 directories'' @ newline)
   \<and> last (fst (run machine (liveFlags\<lparr>dryRun := False\<rparr>) tmpPaths)) =
       EvPrintf (''estimated savings ~8K from 3 directories'' @ newline)"
proof -
  define D where "D = fst (run machine (liveFlags\<lparr>dryRun := True\<rparr>) tmpPaths)"
  define L where "L = fst (run machine (liveFlags\<lparr>dryRun := False\<rparr>) tmpPaths)"
  have d: "snd (run machine (liveFlags\<lparr>dryRun := True\<rparr>) tmpPaths) = (tmpPaths, None)"
    by code_simp
  have l: "snd (run machine (liveFlags\<lparr>dryRun := False\<rparr>) tmpPaths) = ([''/tmp/keepme''], None)"
    by code_simp
  have s: "last (fst (run machine (liveFlags\<lparr>dryRun := False\<rparr>) tmpPaths)) =
             EvPrintf (''estimated savings ~8K from 3 directories'' @ newline)"
    by code_simp
  have hD: "run machine (liveFlags\<lparr>dryRun := True\<rparr>) tmpPaths = (D, tmpPaths, None)"
    unfolding D_def using d by (metis prod.collapse)
  have hL: "run machine (liveFlags\<lparr>dryRun := False\<rparr>) tmpPaths = (L, [''/tmp/keepme''], None)"
    unfolding L_def using l by (metis prod.collapse)
  have "filter isRemove D = [] \<and> last D = last L"
    using dry_run_deletes_nothing_same_summary [OF hD hL] by blast
  then show ?thesis using d l s unfolding D_def L_def by simp
qed

subsection \<open>Errors of the second loop\<close>

text \<open>
  C6. In a live run whose first loop has ended: when the removal of a candidate returns
  an error that does not contain \<open>Permission denied\<close> (as every error does that does
  not mention the phrase at all, by \<open>Permission_denied_mentions\<close>), the removals of
  the candidates before it having gone through, \<open>run\<close> returns at once with that
  error. The candidates after it are not touched: the removals of the run are those of
  the candidates up to the failing one. The file system is left as the removals made it.
\<close>

theorem deletion_error_aborts:
  assumes root: "tmpRoot fl \<noteq> []"
    and live: "\<not> dryRun fl"
    and scan: "scanForToplevelStuff sys fl w = (evs0, Inr (pre @ dir # post))"
    and est: "estimateLoop sys w (pre @ dir # post) 0 = (evs1, Inr tb)"
    and before: "deleteLoop sys False pre w = (evsP, wP, None)"
    and fails: "os_RemoveAll sys wP dir = (wd, Some err)"
    and other: "\<not> Contains err ''Permission denied''"
  shows "run sys fl w =
           (evs0 @ evs1 @ evsP @ [EvPrintf (''deleting '' @ dir @ newline), EvRemoveAll dir],
            wd, Some err)
       \<and> filter isRemove (fst (run sys fl w)) = map EvRemoveAll (pre @ [dir])"
proof -
  let ?last = "[EvPrintf (''deleting '' @ dir @ newline), EvRemoveAll dir]"
  have "deleteLoop sys False (dir # post) wP = (?last, wd, Some err)"
    using fails other by simp
  then have d: "deleteLoop sys (dryRun fl) (pre @ dir # post) w = (evsP @ ?last, wd, Some err)"
    using deleteLoop_append [OF before, of "dir # post"] live by simp
  have r: "run sys fl w = (evs0 @ evs1 @ evsP @ ?last, wd, Some err)"
    using run_delete_error [OF root scan est d] by simp
  have "filter isRemove evs0 = []" using scan_events [of sys fl w] scan by simp
  moreover have "filter isRemove evs1 = []" using est by (rule estimateLoop_no_remove)
  moreover have "filter isRemove evsP = map EvRemoveAll pre" using before by (rule deleteLoop_removes)
  ultimately show ?thesis using r by simp
qed

theorem deletion_error_aborts_witness:
  "\<not> Contains ''unlinkat /tmp/snapshot.bin: read-only file system'' ''Permission denied''
   \<and> snd (run machine_read_only liveFlags tmpPaths) =
       ([''/tmp/snapshot.bin'', ''/tmp/keepme'', ''/tmp/gopls.abc-heap.pb.gz''],
        Some ''unlinkat /tmp/snapshot.bin: read-only file system'')
   \<and> filter isRemove (fst (run machine_read_only liveFlags tmpPaths)) =
       [EvRemoveAll ''/tmp/go-build-123'', EvRemoveAll ''/tmp/snapshot.bin'']"
proof -
  let ?pre = "[''/tmp/go-build-123'']"
  let ?dir = "''/tmp/snapshot.bin''"
  let ?post = "[''/tmp/gopls.abc-heap.pb.gz'']"
  let ?w1 = "[''/tmp/snapshot.bin'', ''/tmp/keepme'', ''/tmp/gopls.abc-heap.pb.gz'']"
  let ?err = "''unlinkat /tmp/snapshot.bin: read-only file system''"
  define E where "E = fst (estimateLoop machine_read_only tmpPaths (?pre @ ?dir # ?post) 0)"
  have root: "tmpRoot liveFlags \<noteq> []" and live: "\<not> dryRun liveFlags"
    by (simp_all add: liveFlags_def)
  have scan: "scanForToplevelStuff machine_read_only liveFlags tmpPaths =
                ([EvReadDir ''/tmp''], Inr (?pre @ ?dir # ?post))"
    by code_simp
  have "snd (estimateLoop machine_read_only tmpPaths (?pre @ ?dir # ?post) 0) = Inr 8192"
    by code_simp
  then have est: "estimateLoop machine_read_only tmpPaths (?pre @ ?dir # ?post) 0 = (E, Inr 8192)"
    unfolding E_def by (metis prod.collapse)
  have before: "deleteLoop machine_read_only False ?pre tmpPaths =
      ([EvPrintf (''deleting /tmp/go-build-123'' @ newline), EvRemoveAll ''/tmp/go-build-123''],
       ?w1, None)"
    by code_simp
  have fails: "os_RemoveAll machine_read_only ?w1 ?dir = (?w1, Some ?err)"
    by code_simp
  have other: "\<not> Contains ?err ''Permission denied''" by code_simp
  note t = deletion_error_aborts [OF root live scan est before fails other]
  have "snd (run machine_read_only liveFlags tmpPaths) = (?w1, Some ?err)"
    using t [THEN conjunct1] by simp
  moreover have "filter isRemove (fst (run machine_read_only liveFlags tmpPaths)) =
       [EvRemoveAll ''/tmp/go-build-123'', EvRemoveAll ''/tmp/snapshot.bin'']"
    using t [THEN conjunct2] by simp
  ultimately show ?thesis using other by blast
qed

subsection \<open>The summary's size\<close>

text \<open>
  C7. \<open>humanizeBytes\<close> divides by 1024, dropping the remainder, until the value is
  below 1024 or the unit is T: it renders 0 as 0B, 1023 as 1023B, 1024 as 1K, 1024 * 1024
  as 1M, 1024 * 1024 * 1024 as 1G, the fourth power of 1024 as 1T and the fifth as 1024T,
  there being no unit after T.
\<close>

theorem humanizeBytes_units:
  "humanizeBytes 0 = ''0B'' \<and> humanizeBytes 1023 = ''1023B'' \<and> humanizeBytes 1024 = ''1K''
   \<and> humanizeBytes (1024 * 1024) = ''1M'' \<and> humanizeBytes (1024 * 1024 * 1024) = ''1G''
   \<and> humanizeBytes (1024 ^ 4) = ''1T'' \<and> humanizeBytes (1024 ^ 5) = ''1024T''
   \<and> humanizeBytes v =
       (if v < 1024 then FormatInt v @ ''B''
        else if v < 1024 ^ 2 then FormatInt (v div 1024) @ ''K''
        else if v < 1024 ^ 3 then FormatInt (v div 1024 ^ 2) @ ''M''
        else if v < 1024 ^ 4 then FormatInt (v div 1024 ^ 3) @ ''G''
        else FormatInt (v div 1024 ^ 4) @ ''T'')"
proof -
  have "humanizeBytes 0 = ''0B''" by code_simp
  moreover have "humanizeBytes 1023 = ''1023B''" by code_simp
  moreover have "humanizeBytes 1024 = ''1K''" by code_simp
  moreover have "humanizeBytes (1024 * 1024) = ''1M''" by code_simp
  moreover have "humanizeBytes (1024 * 1024 * 1024) = ''1G''" by code_simp
  moreover have "humanizeBytes (1024 ^ 4) = ''1T''" by code_simp
  moreover have "humanizeBytes (1024 ^ 5) = ''1024T''" by code_simp
  ultimately show ?thesis using humanizeBytes_closed [of v] by blast
qed

theorem humanizeBytes_units_witness:
  "humanizeBytes 5000000 = ''4M'' \<and> humanizeBytes (2 ^ 63 - 1) = ''8388607T''"
proof -
  have "FormatInt (5000000 div 1024 ^ 2) = ''4''" by code_simp
  moreover have "FormatInt ((2 ^ 63 - 1) div 1024 ^ 4) = ''8388607''"
    by (simp add: FormatInt_def formatNat.simps digitChar_def)
  ultimately show ?thesis
    using humanizeBytes_units [of 5000000] humanizeBytes_units [of "2 ^ 63 - 1"] by simp
qed

text \<open>
  C9. \<open>humanizeBytes\<close> returns a string for every \<open>int64\<close>: a negative value is below
  1024, so it is rendered in decimal, with its sign, and the unit B.
\<close>

theorem humanizeBytes_negative:
  "v < 0 \<Longrightarrow> humanizeBytes v = FormatInt v @ ''B''
     \<and> FormatInt v = CHR ''-'' # formatNat (nat (- v))"
  by (simp add: humanizeBytes_def unitF_def FormatInt_def)

theorem humanizeBytes_negative_witness:
  "(- 1 :: int) < 0 \<and> humanizeBytes (- 1) = ''-1B''
   \<and> humanizeBytes (- (2 ^ 63)) = ''-9223372036854775808B''"
proof -
  have "FormatInt (- 1) = ''-1''" by code_simp
  moreover have "FormatInt (- (2 ^ 63)) = ''-9223372036854775808''"
    by (simp add: FormatInt_def formatNat.simps digitChar_def)
  ultimately show ?thesis
    using humanizeBytes_negative [of "- 1"] humanizeBytes_negative [of "- (2 ^ 63)"] by simp
qed

end
